theory Spec2Isabelle
  imports Complex_Main
begin

section \<open>Scalars, errors and the error monad\<close>

text \<open>
  The containers and the reduction engine are class templates over a scalar type \<open>T\<close>
  (\<open>Matrix<T>\<close>, \<open>RREF<T>\<close>, \<open>SolvingEquation<T>\<close>). The scalar is modelled as an
  arbitrary linearly ordered field \<open>'a\<close> with exact arithmetic. The branches guarded by
  \<open>if constexpr (std::is_floating_point_v<T>)\<close> are kept, under a flag \<open>fp\<close> that says
  whether the scalar type is a floating-point type (the program instantiates \<open>T = double\<close>,
  so \<open>fp = True\<close> there). Rounding is not modelled: the concrete inputs used below are
  small integers and powers of two, on which binary floating point computes exactly.

  Indices and dimensions are C++ \<open>int\<close>s that are never negative in the code modelled
  here; they are natural numbers. Every \<open>throw\<close> is a value \<open>Inl e\<close>.
\<close>

datatype error =
    OutOfRange string
  | InvalidArgument string
  | LogicError string

definition ebind :: "error + 'a \<Rightarrow> ('a \<Rightarrow> error + 'b) \<Rightarrow> error + 'b" where
  "ebind m f = (case m of Inl e \<Rightarrow> Inl e | Inr x \<Rightarrow> f x)"

text \<open>A counted \<open>for\<close> loop whose body may throw: the indices are visited in order and
  the first exception ends the loop.\<close>

primrec efold :: "('i \<Rightarrow> 's \<Rightarrow> error + 's) \<Rightarrow> 'i list \<Rightarrow> 's \<Rightarrow> error + 's" where
  "efold f [] s = Inr s"
| "efold f (i # js) s = ebind (f i s) (efold f js)"

text \<open>The literal \<open>1e-9\<close>: the default tolerance and the threshold of the
  floating-point guards.\<close>

definition default_eps :: "'a::linordered_field" where
  "default_eps = 1 / 1000000000"

section \<open>The dense matrix container (matrix.h)\<close>

record 'a matrix =
  rows :: nat
  cols :: nat
  data :: "'a list list"

text \<open>\<open>Matrix(int r, int c)\<close>: an \<open>r \<times> c\<close> matrix of \<open>T()\<close>, rejected when a
  dimension is not positive.\<close>

definition Matrix_new :: "nat \<Rightarrow> nat \<Rightarrow> error + ('a::linordered_field) matrix" where
  "Matrix_new r c =
     (if r = 0 \<or> c = 0 then Inl (InvalidArgument ''Matrix dimensions must be positive'')
      else Inr \<lparr>rows = r, cols = c, data = replicate r (replicate c 0)\<rparr>)"

text \<open>\<open>Matrix(std::vector<std::vector<T>>&& v)\<close>: takes the rows as they are; an empty
  input gives the \<open>0 \<times> 0\<close> matrix.\<close>

definition Matrix_of :: "'a list list \<Rightarrow> 'a matrix" where
  "Matrix_of v =
     (if v = [] \<or> hd v = [] then \<lparr>rows = 0, cols = 0, data = []\<rparr>
      else \<lparr>rows = length v, cols = length (hd v), data = v\<rparr>)"

text \<open>The class invariant every constructor but the move constructor establishes:
  \<open>data\<close> has \<open>rows\<close> rows of \<open>cols\<close> entries each.\<close>

definition wf_matrix :: "'a matrix \<Rightarrow> bool" where
  "wf_matrix M \<longleftrightarrow> length (data M) = rows M \<and> (\<forall>r \<in> set (data M). length r = cols M)"

definition at_m :: "'a matrix \<Rightarrow> nat \<Rightarrow> nat \<Rightarrow> error + 'a" where
  "at_m M r c =
     (if r \<ge> rows M \<or> c \<ge> cols M then Inl (OutOfRange ''Matrix index out of bounds'')
      else Inr (data M ! r ! c))"

text \<open>An assignment \<open>mat.at(r, c) = v\<close> through the reference that \<open>at\<close> returns.\<close>

definition set_at :: "'a matrix \<Rightarrow> nat \<Rightarrow> nat \<Rightarrow> 'a \<Rightarrow> error + 'a matrix" where
  "set_at M r c v =
     (if r \<ge> rows M \<or> c \<ge> cols M then Inl (OutOfRange ''Matrix index out of bounds'')
      else Inr (M\<lparr>data := (data M)[r := (data M ! r)[c := v]]\<rparr>))"

definition exchangeRows :: "'a matrix \<Rightarrow> nat \<Rightarrow> nat \<Rightarrow> error + 'a matrix" where
  "exchangeRows M r1 r2 =
     (if r1 \<ge> rows M \<or> r2 \<ge> rows M then Inl (OutOfRange ''Row index out of bounds'')
      else Inr (M\<lparr>data := (data M)[r1 := data M ! r2, r2 := data M ! r1]\<rparr>))"

definition scaleRow ::
  "bool \<Rightarrow> ('a::linordered_field) matrix \<Rightarrow> nat \<Rightarrow> 'a \<Rightarrow> error + 'a matrix" where
  "scaleRow fp M r scalar =
     (if r \<ge> rows M then Inl (OutOfRange ''Row index out of bounds'')
      else if fp \<and> \<bar>scalar\<bar> < 1 / 1000000000
        then Inl (InvalidArgument ''Scaling factor too small'')
      else Inr (M\<lparr>data := (data M)[r := map (\<lambda>j. data M ! r ! j * scalar) [0..<cols M]]\<rparr>))"

definition addScaledRow ::
  "bool \<Rightarrow> ('a::linordered_field) matrix \<Rightarrow> nat \<Rightarrow> nat \<Rightarrow> 'a \<Rightarrow> error + 'a matrix" where
  "addScaledRow fp M targetRow sourceRow scalar =
     (if targetRow \<ge> rows M \<or> sourceRow \<ge> rows M
        then Inl (OutOfRange ''Row index out of bounds'')
      else if fp \<and> \<bar>scalar\<bar> < 1 / 1000000000 then Inr M
      else Inr (M\<lparr>data := (data M)[targetRow :=
             map (\<lambda>j. data M ! targetRow ! j + data M ! sourceRow ! j * scalar)
                 [0..<cols M]]\<rparr>))"

section \<open>The reduction engine (RREF.h)\<close>

record 'a rref =
  mat :: "'a matrix"
  rank :: nat
  pivotCols :: "nat list"
  pivotRows :: "nat list"
  isREF :: bool
  isRREF :: bool

text \<open>The constructor \<open>RREF(const Matrix<T>& inputMat)\<close>.\<close>

definition RREF_new :: "'a matrix \<Rightarrow> 'a rref" where
  "RREF_new inputMat =
     \<lparr>mat = inputMat, rank = 0, pivotCols = [], pivotRows = [], isREF = False, isRREF = False\<rparr>"

subsection \<open>toREF\<close>

text \<open>One round of the search for the entry of largest magnitude in column \<open>col\<close>:
  the state is \<open>(max_index, max_val)\<close>.\<close>

definition find_max_step ::
  "('a::linordered_field) matrix \<Rightarrow> nat \<Rightarrow> nat \<Rightarrow> nat \<times> 'a \<Rightarrow> error + nat \<times> 'a" where
  "find_max_step M col row s =
     (case s of (max_index, max_val) \<Rightarrow>
        ebind (at_m M row col) (\<lambda>v.
          let current_val = \<bar>v\<bar> in
          if current_val > max_val then Inr (row, current_val)
          else Inr (max_index, max_val)))"

text \<open>One round of the elimination below the pivot at \<open>(pivotRow, col)\<close>.\<close>

definition eliminate_step ::
  "bool \<Rightarrow> ('a::linordered_field) \<Rightarrow> nat \<Rightarrow> nat \<Rightarrow> nat \<Rightarrow> 'a matrix \<Rightarrow> error + 'a matrix" where
  "eliminate_step fp eps pivotRow col row M =
     ebind (at_m M row col) (\<lambda>v.
       if \<bar>v\<bar> < eps then set_at M row col 0
       else ebind (at_m M pivotRow col) (\<lambda>p.
         let factor = - v / p in
         ebind (addScaledRow fp M row pivotRow factor) (\<lambda>M'.
           set_at M' row col 0)))"

text \<open>The body of the column loop of \<open>toREF\<close>; it returns the new state together
  with the new value of the local \<open>pivotRow\<close>.\<close>

definition toREF_column ::
  "bool \<Rightarrow> ('a::linordered_field) \<Rightarrow> nat \<Rightarrow> nat \<Rightarrow> 'a rref \<Rightarrow> nat \<Rightarrow> error + 'a rref \<times> nat" where
  "toREF_column fp eps nrows col S pivotRow =
     ebind (at_m (mat S) pivotRow col) (\<lambda>v0.
     ebind (efold (find_max_step (mat S) col) [pivotRow + 1..<nrows] (pivotRow, \<bar>v0\<bar>))
       (\<lambda>(max_index, max_val).
     if max_val < eps then Inr (S, pivotRow)
     else
       ebind (if max_index \<noteq> pivotRow then exchangeRows (mat S) max_index pivotRow
              else Inr (mat S)) (\<lambda>M1.
       ebind (efold (eliminate_step fp eps pivotRow col) [pivotRow + 1..<nrows] M1) (\<lambda>M2.
         Inr (S\<lparr>mat := M2, rank := rank S + 1,
                 pivotCols := pivotCols S @ [col],
                 pivotRows := pivotRows S @ [pivotRow]\<rparr>, pivotRow + 1)))))"

function toREF_loop ::
  "bool \<Rightarrow> ('a::linordered_field) \<Rightarrow> nat \<Rightarrow> nat \<Rightarrow> 'a rref \<Rightarrow> nat \<Rightarrow> nat \<Rightarrow> error + 'a rref" where
  "toREF_loop fp eps nrows ncols S col pivotRow =
     (if col < ncols \<and> pivotRow < nrows then
        (case toREF_column fp eps nrows col S pivotRow of
           Inl e \<Rightarrow> Inl e
         | Inr (S', pivotRow') \<Rightarrow> toREF_loop fp eps nrows ncols S' (col + 1) pivotRow')
      else Inr S)"
  by pat_completeness auto
termination
  by (relation "measure (\<lambda>(fp, eps, nrows, ncols, S, col, pivotRow). ncols - col)") auto

declare toREF_loop.simps [simp del]

definition toREF :: "bool \<Rightarrow> ('a::linordered_field) \<Rightarrow> 'a rref \<Rightarrow> error + 'a rref" where
  "toREF fp eps S =
     (let nrows = rows (mat S); ncols = cols (mat S);
          S0 = S\<lparr>rank := 0, pivotCols := [], pivotRows := []\<rparr>
      in ebind (toREF_loop fp eps nrows ncols S0 0 0) (\<lambda>S'. Inr (S'\<lparr>isREF := True\<rparr>)))"

subsection \<open>toRREF\<close>

text \<open>The forward pass: the \<open>i\<close>-th pivot row is scaled by the reciprocal of its pivot.\<close>

definition scale_step ::
  "bool \<Rightarrow> nat list \<Rightarrow> nat list \<Rightarrow> nat \<Rightarrow> ('a::linordered_field) matrix \<Rightarrow> error + 'a matrix" where
  "scale_step fp prs pcs i M =
     (let row = prs ! i; col = pcs ! i in
      ebind (at_m M row col) (\<lambda>p.
        let scaleFactor = 1 / p in scaleRow fp M row scaleFactor))"

text \<open>The backward pass: one row above the pivot at \<open>(row, col)\<close>.\<close>

definition back_step ::
  "bool \<Rightarrow> ('a::linordered_field) \<Rightarrow> nat \<Rightarrow> nat \<Rightarrow> nat \<Rightarrow> 'a matrix \<Rightarrow> error + 'a matrix" where
  "back_step fp eps row col upperRow M =
     ebind (at_m M upperRow col) (\<lambda>v.
       if \<bar>v\<bar> < eps then set_at M upperRow col 0
       else
         let factor = - v in
         ebind (addScaledRow fp M upperRow row factor) (\<lambda>M'.
           set_at M' upperRow col 0))"

definition back_pivot ::
  "bool \<Rightarrow> ('a::linordered_field) \<Rightarrow> nat list \<Rightarrow> nat list \<Rightarrow> nat \<Rightarrow> 'a matrix \<Rightarrow> error + 'a matrix" where
  "back_pivot fp eps prs pcs i M =
     (let row = prs ! i; col = pcs ! i in
      efold (back_step fp eps row col) (rev [0..<row]) M)"

text \<open>The final pass snaps every entry of magnitude below \<open>eps\<close> to zero.\<close>

definition cleanup_step ::
  "('a::linordered_field) \<Rightarrow> nat \<Rightarrow> nat \<Rightarrow> 'a matrix \<Rightarrow> error + 'a matrix" where
  "cleanup_step eps i j M =
     ebind (at_m M i j) (\<lambda>v. if \<bar>v\<bar> < eps then set_at M i j 0 else Inr M)"

definition cleanup_row ::
  "('a::linordered_field) \<Rightarrow> nat \<Rightarrow> nat \<Rightarrow> 'a matrix \<Rightarrow> error + 'a matrix" where
  "cleanup_row eps ncols i M = efold (cleanup_step eps i) [0..<ncols] M"

definition toRREF :: "bool \<Rightarrow> ('a::linordered_field) \<Rightarrow> 'a rref \<Rightarrow> error + 'a rref" where
  "toRREF fp eps S =
     (let nrows = rows (mat S); ncols = cols (mat S) in
      ebind (if \<not> isREF S then toREF fp eps S else Inr S) (\<lambda>S1.
      ebind (efold (scale_step fp (pivotRows S1) (pivotCols S1)) [0..<rank S1] (mat S1)) (\<lambda>M1.
      ebind (efold (back_pivot fp eps (pivotRows S1) (pivotCols S1)) (rev [0..<rank S1]) M1)
        (\<lambda>M2.
      ebind (efold (cleanup_row eps ncols) [0..<nrows] M2) (\<lambda>M3.
        Inr (S1\<lparr>mat := M3, isRREF := True\<rparr>))))))"

subsection \<open>getKernel and rank\<close>

text \<open>The search \<open>for (int pc : pivotCols) if (pc == j) { isPivot = true; break; }\<close>.\<close>

fun is_pivot :: "nat list \<Rightarrow> nat \<Rightarrow> bool" where
  "is_pivot [] j = False"
| "is_pivot (pc # pcs) j = (if pc = j then True else is_pivot pcs j)"

definition free_cols :: "nat list \<Rightarrow> nat \<Rightarrow> nat list" where
  "free_cols pcs n = filter (\<lambda>j. \<not> is_pivot pcs j) [0..<n]"

text \<open>A loop that appends one result per element (\<open>push_back\<close>) and may throw.\<close>

primrec emap :: "('i \<Rightarrow> error + 'b) \<Rightarrow> 'i list \<Rightarrow> error + 'b list" where
  "emap f [] = Inr []"
| "emap f (i # js) = ebind (f i) (\<lambda>y. ebind (emap f js) (\<lambda>ys. Inr (y # ys)))"

text \<open>A \<open>Vector<T>\<close> wraps a \<open>std::vector<T>\<close>: it is a list. The basis vector of the
  free column \<open>freeCol\<close>.\<close>

definition kernel_vector ::
  "('a::linordered_field) matrix \<Rightarrow> nat \<Rightarrow> nat \<Rightarrow> nat list \<Rightarrow> nat list \<Rightarrow> nat \<Rightarrow> error + 'a list" where
  "kernel_vector M n rk pcs prs freeCol =
     efold (\<lambda>i v_vec.
              let pCol = pcs ! i; pRow = prs ! i in
              ebind (at_m M pRow freeCol) (\<lambda>x. Inr (v_vec[pCol := - x])))
           [0..<rk] ((replicate n 0)[freeCol := 1])"

text \<open>\<open>getKernel\<close> reduces the engine's matrix if that has not been done, so it returns
  the basis together with the engine's new state.\<close>

definition getKernel ::
  "bool \<Rightarrow> ('a::linordered_field) \<Rightarrow> 'a rref \<Rightarrow> error + 'a list list \<times> 'a rref" where
  "getKernel fp eps S =
     ebind (if \<not> isRREF S then toRREF fp eps S else Inr S) (\<lambda>S1.
       let n = cols (mat S1);
           freeCols = free_cols (pivotCols S1) n
       in ebind (emap (kernel_vector (mat S1) n (rank S1) (pivotCols S1) (pivotRows S1)) freeCols)
            (\<lambda>basis. Inr (basis, S1)))"


section \<open>The linear system solver (SolvingEquation.h)\<close>

text \<open>\<open>Matrix::augment\<close>: horizontal concatenation.\<close>

definition augment ::
  "('a::linordered_field) matrix \<Rightarrow> 'a matrix \<Rightarrow> error + 'a matrix" where
  "augment M other =
     (if rows M \<noteq> rows other then Inl (InvalidArgument ''Row count must match for augment'')
      else ebind (Matrix_new (rows M) (cols M + cols other)) (\<lambda>result.
        Inr (result\<lparr>data :=
          map (\<lambda>i. map (\<lambda>j. if j < cols M then data M ! i ! j
                              else data other ! i ! (j - cols M))
                       [0..<cols M + cols other])
              [0..<rows M]\<rparr>)))"

datatype SolutionType = NoSolution | UniqueSolution | InfiniteSolutions

record 'a solving_equation =
  augmented :: "'a matrix"
  rrefMatrix :: "'a matrix"
  rrefSolver :: "'a rref"
  solutionType :: SolutionType
  particular :: "'a list"
  nullspace :: "'a list list"

text \<open>The scan \<open>for (int col : pivotCols) if (col == n) return NoSolution\<close>. The local
  \<open>n = augmented.getCols() - 1\<close> is an \<open>int\<close>.\<close>

fun rhs_has_pivot :: "nat list \<Rightarrow> int \<Rightarrow> bool" where
  "rhs_has_pivot [] n = False"
| "rhs_has_pivot (col # cs) n = (if int col = n then True else rhs_has_pivot cs n)"

text \<open>\<open>solve\<close> stores the classification in the member \<open>type\<close> (here
  \<open>solutionType\<close>) and returns it.\<close>

definition solve :: "'a solving_equation \<Rightarrow> SolutionType \<times> 'a solving_equation" where
  "solve s =
     (let n = int (cols (augmented s)) - 1;
          pcs = pivotCols (rrefSolver s)
      in if rhs_has_pivot pcs n then (NoSolution, s\<lparr>solutionType := NoSolution\<rparr>)
         else if int (length pcs) = n
           then (UniqueSolution, s\<lparr>solutionType := UniqueSolution\<rparr>)
         else (InfiniteSolutions, s\<lparr>solutionType := InfiniteSolutions\<rparr>))"

text \<open>The constructor. The members are initialised in declaration order
  (\<open>augmented\<close>, then \<open>rrefSolver\<close>), each from its own call of \<open>augment\<close>, before
  the body checks the shape of \<open>b\<close>. The member \<open>type\<close> has no initialiser; \<open>solve\<close>
  assigns it before anything reads it.\<close>

definition SolvingEquation_new ::
  "bool \<Rightarrow> ('a::linordered_field) matrix \<Rightarrow> 'a matrix \<Rightarrow> error + 'a solving_equation" where
  "SolvingEquation_new fp A b =
     ebind (augment A b) (\<lambda>aug.
     ebind (augment A b) (\<lambda>aug'.
       if rows b \<noteq> rows A \<or> cols b \<noteq> 1 then Inl (InvalidArgument ''Invalid dimensions'')
       else ebind (toRREF fp default_eps (RREF_new aug')) (\<lambda>rs.
         Inr (snd (solve \<lparr>augmented = aug, rrefMatrix = mat rs, rrefSolver = rs,
                           solutionType = NoSolution, particular = [], nullspace = []\<rparr>)))))"





section \<open>Vectors (vector.h) and the remaining matrix operations\<close>

text \<open>A \<open>Vector<T>\<close> is the list of its entries. \<open>operator[]\<close> is the checked
  \<open>std::vector::at\<close>.\<close>

definition Vector_at :: "'a list \<Rightarrow> nat \<Rightarrow> error + 'a" where
  "Vector_at v i = (if i \<ge> length v then Inl (OutOfRange ''vector::at'') else Inr (v ! i))"

definition Vector_scale :: "('a::linordered_field) list \<Rightarrow> 'a \<Rightarrow> 'a list" where
  "Vector_scale v scalar = map (\<lambda>i. v ! i * scalar) [0..<length v]"

definition Vector_div :: "('a::linordered_field) list \<Rightarrow> 'a \<Rightarrow> error + 'a list" where
  "Vector_div v scalar =
     (if \<bar>scalar\<bar> < 1 / 1000000000 then Inl (InvalidArgument ''Division by zero'')
      else Inr (Vector_scale v (1 / scalar)))"

definition Vector_sub_assign :: "('a::linordered_field) list \<Rightarrow> 'a list \<Rightarrow> error + 'a list" where
  "Vector_sub_assign v other =
     (if length v \<noteq> length other then Inl (InvalidArgument ''Vector size mismatch'')
      else Inr (map (\<lambda>i. v ! i - other ! i) [0..<length v]))"

definition Vector_dot :: "('a::linordered_field) list \<Rightarrow> 'a list \<Rightarrow> error + 'a" where
  "Vector_dot v other =
     (if length v \<noteq> length other then Inl (InvalidArgument ''Dot product size mismatch'')
      else efold (\<lambda>i sum. ebind (Vector_at other i) (\<lambda>y. Inr (sum + v ! i * y)))
                 [0..<length v] 0)"

text \<open>\<open>std::sqrt\<close> belongs to the scalar type; it is the parameter \<open>sq\<close>.\<close>

definition Vector_norm :: "('a \<Rightarrow> 'a) \<Rightarrow> ('a::linordered_field) list \<Rightarrow> error + 'a" where
  "Vector_norm sq v = ebind (Vector_dot v v) (\<lambda>d. Inr (sq d))"

definition Vector_normalized ::
  "('a \<Rightarrow> 'a) \<Rightarrow> ('a::linordered_field) list \<Rightarrow> 'a \<Rightarrow> error + 'a list" where
  "Vector_normalized sq v eps =
     ebind (Vector_norm sq v) (\<lambda>n.
       if n < eps then Inl (InvalidArgument ''Cannot normalize zero vector'')
       else Inr (Vector_scale v (1 / n)))"

definition isSquare :: "'a matrix \<Rightarrow> bool" where
  "isSquare M \<longleftrightarrow> rows M = cols M"

definition getCol :: "'a matrix \<Rightarrow> nat \<Rightarrow> error + 'a list" where
  "getCol M c =
     (if c \<ge> cols M then Inl (OutOfRange ''Col index out of bounds'')
      else Inr (map (\<lambda>i. data M ! i ! c) [0..<rows M]))"

text \<open>A doubly nested counted loop over the entries \<open>(i, j)\<close>, \<open>i < m\<close>, \<open>j < n\<close>.\<close>

definition for_entries ::
  "nat \<Rightarrow> nat \<Rightarrow> (nat \<Rightarrow> nat \<Rightarrow> 's \<Rightarrow> error + 's) \<Rightarrow> 's \<Rightarrow> error + 's" where
  "for_entries m n body s = efold (\<lambda>i. efold (\<lambda>j. body i j) [0..<n]) [0..<m] s"

definition identity :: "nat \<Rightarrow> error + ('a::linordered_field) matrix" where
  "identity n = ebind (Matrix_new n n) (efold (\<lambda>i mat. set_at mat i i 1) [0..<n])"

definition transpose_m :: "('a::linordered_field) matrix \<Rightarrow> error + 'a matrix" where
  "transpose_m M =
     ebind (Matrix_new (cols M) (rows M))
       (for_entries (cols M) (rows M) (\<lambda>col row result. set_at result col row (data M ! row ! col)))"

definition minus_m :: "('a::linordered_field) matrix \<Rightarrow> 'a matrix \<Rightarrow> error + 'a matrix" where
  "minus_m M other =
     (if rows M \<noteq> rows other \<or> cols M \<noteq> cols other
        then Inl (InvalidArgument ''Matrix dimensions must match for subtraction'')
      else ebind (Matrix_new (rows M) (cols M))
        (for_entries (rows M) (cols M)
           (\<lambda>i j result. set_at result i j (data M ! i ! j - data other ! i ! j))))"

definition times_m :: "('a::linordered_field) matrix \<Rightarrow> 'a matrix \<Rightarrow> error + 'a matrix" where
  "times_m M other =
     (if cols M \<noteq> rows other
        then Inl (InvalidArgument ''Matrix dimensions must match for multiplication'')
      else ebind (Matrix_new (rows M) (cols other))
        (for_entries (rows M) (cols other)
           (\<lambda>i j. efold (\<lambda>k result.
                     ebind (at_m result i j) (\<lambda>x.
                       set_at result i j (x + data M ! i ! k * data other ! k ! j)))
                   [0..<cols M])))"

definition scale_m :: "('a::linordered_field) matrix \<Rightarrow> 'a \<Rightarrow> error + 'a matrix" where
  "scale_m M scalar =
     ebind (Matrix_new (rows M) (cols M))
       (for_entries (rows M) (cols M) (\<lambda>i j result. set_at result i j (data M ! i ! j * scalar)))"

text \<open>\<open>qr_decomposition\<close>: Gram-Schmidt on the columns. The inner loop subtracts from
  \<open>u\<close> its components along the columns of \<open>Q\<close> found so far.\<close>

definition qr_project ::
  "('a::linordered_field) list list \<Rightarrow> 'a list \<Rightarrow> nat \<Rightarrow> 'a list \<Rightarrow> error + 'a list" where
  "qr_project q_cols a_i j u =
     ebind (Vector_dot (q_cols ! j) a_i) (\<lambda>r_ji.
       Vector_sub_assign u (Vector_scale (q_cols ! j) r_ji))"

definition qr_column ::
  "('a \<Rightarrow> 'a) \<Rightarrow> ('a::linordered_field) list list \<Rightarrow> nat \<Rightarrow> 'a list list \<Rightarrow> error + 'a list list" where
  "qr_column sq a_cols i q_cols =
     ebind (efold (qr_project q_cols (a_cols ! i)) [0..<i] (a_cols ! i)) (\<lambda>u.
     ebind (Vector_norm sq u) (\<lambda>r_ii.
       if \<bar>r_ii\<bar> < 1 / 1000000000 then Inr (q_cols @ [u])
       else ebind (Vector_div u r_ii) (\<lambda>q. Inr (q_cols @ [q]))))"

definition qr_decomposition ::
  "('a \<Rightarrow> 'a) \<Rightarrow> ('a::linordered_field) matrix \<Rightarrow> error + 'a matrix \<times> 'a matrix" where
  "qr_decomposition sq M =
     (if rows M \<noteq> cols M then Inl (InvalidArgument ''Must be square'')
      else
        let n = rows M in
        ebind (emap (getCol M) [0..<n]) (\<lambda>a_cols.
        ebind (efold (qr_column sq a_cols) [0..<n] []) (\<lambda>q_cols.
        ebind (Matrix_new n n) (\<lambda>Q0.
        ebind (for_entries n n
                 (\<lambda>j i Q. ebind (Vector_at (q_cols ! j) i) (\<lambda>x. set_at Q i j x)) Q0) (\<lambda>Q.
        ebind (transpose_m Q) (\<lambda>Qt.
        ebind (times_m Qt M) (\<lambda>R0.
        ebind (efold (\<lambda>i. efold (\<lambda>j R. set_at R i j 0) [0..<i]) [0..<n] R0) (\<lambda>R.
          Inr (Q, R)))))))))"

section \<open>The eigen-decomposition routine (RREF.h)\<close>

record 'a eigen_decomposition =
  eigenvalues :: "'a list"
  eigenvectors :: "'a list list"

text \<open>One step of the QR iteration: factor the iterate, recombine in reverse order.\<close>

definition qr_step :: "('a \<Rightarrow> 'a) \<Rightarrow> ('a::linordered_field) matrix \<Rightarrow> error + 'a matrix" where
  "qr_step sq A_iter = ebind (qr_decomposition sq A_iter) (\<lambda>(Q, R). times_m R Q)"

text \<open>\<open>try { push_back(v.normalized()) } catch (...) { push_back(v) }\<close>.\<close>

definition normalized_or_self :: "('a \<Rightarrow> 'a) \<Rightarrow> ('a::linordered_field) list \<Rightarrow> 'a list" where
  "normalized_or_self sq v =
     (case Vector_normalized sq v (1 / 1000000000) of Inr u \<Rightarrow> u | Inl e \<Rightarrow> v)"

text \<open>The vectors one eigenvalue contributes to \<open>result.eigenvectors\<close>: the body of the
  loop over the eigenvalues, on the original matrix.\<close>

definition eigenvector_slot ::
  "('a \<Rightarrow> 'a) \<Rightarrow> bool \<Rightarrow> ('a::linordered_field) matrix \<Rightarrow> 'a \<Rightarrow> error + 'a list list" where
  "eigenvector_slot sq fp M lam =
     ebind (identity (rows M)) (\<lambda>I.
     ebind (scale_m I lam) (\<lambda>LambdaI.
     ebind (minus_m M LambdaI) (\<lambda>CharacteristicMat.
     ebind (getKernel fp default_eps (RREF_new CharacteristicMat)) (\<lambda>(basis, solver).
       if basis \<noteq> [] then Inr (map (normalized_or_self sq) basis)
       else Inr [replicate (rows M) 0]))))"

definition eigen ::
  "('a \<Rightarrow> 'a) \<Rightarrow> bool \<Rightarrow> ('a::linordered_field) matrix \<Rightarrow> int \<Rightarrow> error + 'a eigen_decomposition" where
  "eigen sq fp M max_iter =
     (if \<not> isSquare M then Inl (LogicError ''Eigen decomposition only for square matrices'')
      else
        ebind (efold (\<lambda>k. qr_step sq) [0..<nat max_iter] M) (\<lambda>A_iter.
        ebind (emap (\<lambda>i. at_m A_iter i i) [0..<rows M]) (\<lambda>evs.
        ebind (efold (\<lambda>lam vecs. ebind (eigenvector_slot sq fp M lam) (\<lambda>slot. Inr (vecs @ slot)))
                     evs []) (\<lambda>vecs.
          Inr \<lparr>eigenvalues = evs, eigenvectors = vecs\<rparr>))))"

text \<open>The declaration gives \<open>max_iter\<close> the default \<open>1000\<close>.\<close>

definition eigen_default ::
  "('a \<Rightarrow> 'a) \<Rightarrow> bool \<Rightarrow> ('a::linordered_field) matrix \<Rightarrow> error + 'a eigen_decomposition" where
  "eigen_default sq fp M = eigen sq fp M 1000"

section \<open>Notions used in the statements\<close>

text \<open>The entry of a matrix, read without the bounds check.\<close>

definition entry :: "'a matrix \<Rightarrow> nat \<Rightarrow> nat \<Rightarrow> 'a" where
  "entry M r c = data M ! r ! c"

text \<open>The invariant of the column loop of \<open>toREF\<close>, before column \<open>col\<close> with the local
  \<open>pivotRow = pr\<close>.\<close>

definition ref_inv ::
  "('a::linordered_field) \<Rightarrow> nat \<Rightarrow> nat \<Rightarrow> 'a rref \<Rightarrow> nat \<Rightarrow> nat \<Rightarrow> bool" where
  "ref_inv eps nrows ncols S col pr \<longleftrightarrow>
     wf_matrix (mat S) \<and> rows (mat S) = nrows \<and> cols (mat S) = ncols
     \<and> rank S = pr \<and> pivotRows S = [0..<pr] \<and> length (pivotCols S) = pr
     \<and> pr \<le> nrows \<and> col \<le> ncols \<and> pr \<le> col
     \<and> (\<forall>c \<in> set (pivotCols S). c < col) \<and> sorted_wrt (<) (pivotCols S)
     \<and> (\<forall>i<pr. eps \<le> \<bar>entry (mat S) i (pivotCols S ! i)\<bar>)
     \<and> (\<forall>i<pr. \<forall>r. i < r \<and> r < nrows \<longrightarrow> entry (mat S) r (pivotCols S ! i) = 0)
     \<and> (\<forall>r. 0 < col \<longrightarrow> col - 1 \<notin> set (pivotCols S) \<longrightarrow> pr \<le> r \<longrightarrow> r < nrows
            \<longrightarrow> \<bar>entry (mat S) r (col - 1)\<bar> < eps)"

text \<open>What \<open>toREF\<close> establishes.\<close>

definition ref_form :: "('a::linordered_field) \<Rightarrow> 'a rref \<Rightarrow> bool" where
  "ref_form eps S \<longleftrightarrow>
     (\<exists>col. ref_inv eps (rows (mat S)) (cols (mat S)) S col (rank S)
            \<and> (col = cols (mat S) \<or> rank S = rows (mat S)))"


text \<open>The product of row \<open>r\<close> of a matrix, cut to its first \<open>n\<close> columns, with a vector;
  the product of a matrix with a vector; the \<open>j\<close>-th vector of the standard basis.\<close>

definition row_dot :: "('a::linordered_field) matrix \<Rightarrow> nat \<Rightarrow> nat \<Rightarrow> 'a list \<Rightarrow> 'a" where
  "row_dot M n r v = (\<Sum>c\<leftarrow>[0..<n]. entry M r c * v ! c)"

definition mat_vec :: "('a::linordered_field) matrix \<Rightarrow> 'a list \<Rightarrow> 'a list" where
  "mat_vec M v = map (\<lambda>r. row_dot M (cols M) r v) [0..<rows M]"






subsection \<open>The row-echelon reduction as it is described\<close>

text \<open>The three row operations of the description, without the bounds checks: forcing
  an entry to a value, exchanging two rows, and the add-scaled-row step (for a
  floating-point scalar the container leaves the row as it is when the magnitude of the
  factor is below \<open>1e-9\<close>).\<close>

definition put :: "'a matrix \<Rightarrow> nat \<Rightarrow> nat \<Rightarrow> 'a \<Rightarrow> 'a matrix" where
  "put M r c v = M\<lparr>data := (data M)[r := (data M ! r)[c := v]]\<rparr>"

definition swap_rows :: "'a matrix \<Rightarrow> nat \<Rightarrow> nat \<Rightarrow> 'a matrix" where
  "swap_rows M r1 r2 = M\<lparr>data := (data M)[r1 := data M ! r2, r2 := data M ! r1]\<rparr>"

definition add_scaled_row ::
  "bool \<Rightarrow> ('a::linordered_field) matrix \<Rightarrow> nat \<Rightarrow> nat \<Rightarrow> 'a \<Rightarrow> 'a matrix" where
  "add_scaled_row fp M t s k =
     (if fp \<and> \<bar>k\<bar> < 1 / 1000000000 then M
      else M\<lparr>data := (data M)[t := map (\<lambda>j. entry M t j + entry M s j * k) [0..<cols M]]\<rparr>)"


text \<open>The elimination of one row below the pivot, as the claim words it: an
  add-scaled-row step with the factor that cancels the entry, then the entry forced to
  zero.\<close>

definition eliminate_literal ::
  "bool \<Rightarrow> nat \<Rightarrow> nat \<Rightarrow> ('a::linordered_field) matrix \<Rightarrow> nat \<Rightarrow> 'a matrix" where
  "eliminate_literal fp pr col M r =
     put (add_scaled_row fp M r pr (- entry M r col / entry M pr col)) r col 0"

text \<open>The elimination of one row as the code does it: an entry of magnitude below \<open>eps\<close>
  is only forced to zero.\<close>

definition eliminate_guarded ::
  "bool \<Rightarrow> ('a::linordered_field) \<Rightarrow> nat \<Rightarrow> nat \<Rightarrow> 'a matrix \<Rightarrow> nat \<Rightarrow> 'a matrix" where
  "eliminate_guarded fp eps pr col M r =
     (if \<bar>entry M r col\<bar> < eps then put M r col 0 else eliminate_literal fp pr col M r)"



subsection \<open>The QR iteration as it is described\<close>


subsection \<open>The classification rule as it is described\<close>

text \<open>The classification rule in the words of the specification: with \<open>n\<close> the number of
  unknowns, a pivot in column \<open>n\<close> means no solution; otherwise \<open>n\<close> pivots mean a unique
  solution; otherwise there are infinitely many.\<close>

definition classify_rule :: "nat \<Rightarrow> nat list \<Rightarrow> SolutionType" where
  "classify_rule n pcs =
     (if n \<in> set pcs then NoSolution
      else if length pcs = n then UniqueSolution
      else InfiniteSolutions)"

section \<open>Basic facts about the container\<close>

lemma ebind_Inr [simp]: "ebind (Inr x) f = f x"
  by (simp add: ebind_def)

lemma ebind_Inl [simp]: "ebind (Inl e) f = Inl e"
  by (simp add: ebind_def)

lemma ebind_eq_Inr: "ebind m f = Inr y \<longleftrightarrow> (\<exists>x. m = Inr x \<and> f x = Inr y)"
  by (cases m) auto

lemma at_m_Inr: "r < rows M \<Longrightarrow> c < cols M \<Longrightarrow> at_m M r c = Inr (entry M r c)"
  by (simp add: at_m_def entry_def)

lemma wf_row_length: "wf_matrix M \<Longrightarrow> r < rows M \<Longrightarrow> length (data M ! r) = cols M"
  by (simp add: wf_matrix_def)

lemma set_at_props:
  assumes "wf_matrix M" "r < rows M" "c < cols M"
  shows "\<exists>M'. set_at M r c v = Inr M' \<and> wf_matrix M' \<and> rows M' = rows M \<and> cols M' = cols M
           \<and> (\<forall>i j. entry M' i j = (if i = r \<and> j = c then v else entry M i j))"
proof -
  let ?M = "M\<lparr>data := (data M)[r := (data M ! r)[c := v]]\<rparr>"
  have len: "length (data M) = rows M" "length (data M ! r) = cols M"
    using assms by (simp_all add: wf_matrix_def)
  have wf: "wf_matrix ?M"
    using assms len by (auto simp: wf_matrix_def dest!: set_update_subset_insert [THEN subsetD])
  have ent: "entry ?M i j = (if i = r \<and> j = c then v else entry M i j)" for i j
    using assms len by (cases "i = r") (auto simp: entry_def nth_list_update)
  show ?thesis
    using assms wf ent by (simp add: set_at_def)
qed

lemma exchangeRows_props:
  assumes "wf_matrix M" "r1 < rows M" "r2 < rows M"
  shows "\<exists>M'. exchangeRows M r1 r2 = Inr M' \<and> wf_matrix M' \<and> rows M' = rows M
           \<and> cols M' = cols M
           \<and> (\<forall>i j. entry M' i j = entry M (if i = r1 then r2 else if i = r2 then r1 else i) j)"
proof -
  let ?M = "M\<lparr>data := (data M)[r1 := data M ! r2, r2 := data M ! r1]\<rparr>"
  have len: "length (data M) = rows M"
    using assms by (simp add: wf_matrix_def)
  have wf: "wf_matrix ?M"
    using assms len by (auto simp: wf_matrix_def dest!: set_update_subset_insert [THEN subsetD])
  have ent: "entry ?M i j = entry M (if i = r1 then r2 else if i = r2 then r1 else i) j" for i j
    using assms len by (auto simp: entry_def nth_list_update)
  show ?thesis
    using assms wf ent by (simp add: exchangeRows_def)
qed

lemma addScaledRow_props:
  assumes "wf_matrix M" "t < rows M" "s < rows M"
  shows "\<exists>M'. addScaledRow fp M t s k = Inr M' \<and> wf_matrix M' \<and> rows M' = rows M
           \<and> cols M' = cols M
           \<and> (\<forall>i j. j < cols M \<longrightarrow> entry M' i j =
                (if i = t \<and> \<not> (fp \<and> \<bar>k\<bar> < 1 / 1000000000)
                 then entry M t j + entry M s j * k else entry M i j))"
proof (cases "fp \<and> \<bar>k\<bar> < 1 / 1000000000")
  case True
  then show ?thesis using assms by (simp add: addScaledRow_def)
next
  case False
  let ?row = "map (\<lambda>j. data M ! t ! j + data M ! s ! j * k) [0..<cols M]"
  let ?M = "M\<lparr>data := (data M)[t := ?row]\<rparr>"
  have len: "length (data M) = rows M"
    using assms by (simp add: wf_matrix_def)
  have wf: "wf_matrix ?M"
    using assms len by (auto simp: wf_matrix_def dest!: set_update_subset_insert [THEN subsetD])
  have ent: "entry ?M i j = (if i = t then entry M t j + entry M s j * k else entry M i j)"
    if "j < cols M" for i j
    using assms len that by (auto simp: entry_def nth_list_update)
  show ?thesis
    using assms wf ent False by (auto simp: addScaledRow_def)
qed


section \<open>Loops\<close>

lemma efold_upt_total:
  assumes "I a s" "a \<le> b"
    and step: "\<And>i s. a \<le> i \<Longrightarrow> i < b \<Longrightarrow> I i s \<Longrightarrow> \<exists>s'. f i s = Inr s' \<and> I (Suc i) s'"
  shows "\<exists>s'. efold f [a..<b] s = Inr s' \<and> I b s'"
  using assms
proof (induction "b - a" arbitrary: a s)
  case 0
  then show ?case by simp
next
  case (Suc n)
  then have lt: "a < b" by simp
  from Suc.prems(3) [of a s] Suc.prems(1) lt obtain s1 where s1: "f a s = Inr s1" "I (Suc a) s1"
    by auto
  have "\<exists>s'. efold f [Suc a..<b] s1 = Inr s' \<and> I b s'"
  proof (rule Suc.hyps(1))
    show "n = b - Suc a" using Suc.hyps(2) by simp
    show "I (Suc a) s1" by fact
    show "Suc a \<le> b" using lt by simp
    show "\<exists>s'. f i s = Inr s' \<and> I (Suc i) s'" if "Suc a \<le> i" "i < b" "I i s" for i s
      using Suc.prems(3) [of i s] that by simp
  qed
  then show ?case using lt s1 by (simp add: upt_conv_Cons)
qed

lemma efold_upt_partial:
  assumes "I a s" "a \<le> b" "efold f [a..<b] s = Inr s'"
    and step: "\<And>i s s'. a \<le> i \<Longrightarrow> i < b \<Longrightarrow> I i s \<Longrightarrow> f i s = Inr s' \<Longrightarrow> I (Suc i) s'"
  shows "I b s'"
  using assms
proof (induction "b - a" arbitrary: a s)
  case 0
  then show ?case by simp
next
  case (Suc n)
  then have lt: "a < b" by simp
  from Suc.prems(3) lt obtain s1 where s1: "f a s = Inr s1" "efold f [Suc a..<b] s1 = Inr s'"
    by (auto simp: upt_conv_Cons ebind_eq_Inr)
  have I1: "I (Suc a) s1" using Suc.prems(4) [of a s s1] Suc.prems(1) lt s1 by simp
  show ?case
  proof (rule Suc.hyps(1) [of "Suc a" s1])
    show "n = b - Suc a" using Suc.hyps(2) by simp
    show "I (Suc a) s1" by fact
    show "Suc a \<le> b" using lt by simp
    show "efold f [Suc a..<b] s1 = Inr s'" by fact
    show "I (Suc i) s'" if "Suc a \<le> i" "i < b" "I i s" "f i s = Inr s'" for i s s'
      using Suc.prems(4) [of i s s'] that by simp
  qed
qed



lemma efold_down_partial:
  assumes "I n s" "efold f (rev [0..<n]) s = Inr s'"
    and step: "\<And>i s s'. i < n \<Longrightarrow> I (Suc i) s \<Longrightarrow> f i s = Inr s' \<Longrightarrow> I i s'"
  shows "I 0 s'"
  using assms
proof (induction n arbitrary: s)
  case 0
  then show ?case by simp
next
  case (Suc n)
  from Suc.prems(2) obtain s1 where s1: "f n s = Inr s1" "efold f (rev [0..<n]) s1 = Inr s'"
    by (auto simp: ebind_eq_Inr)
  have "I n s1" using Suc.prems(3) [of n s s1] Suc.prems(1) s1 by simp
  then show ?case using Suc.IH [of s1] s1 Suc.prems(3) by simp
qed


section \<open>The row-echelon invariant\<close>

lemma find_max_total:
  fixes M :: "('a::linordered_field) matrix"
  assumes "rows M = nrows" "col < cols M" "pr < nrows"
  shows "\<exists>mi mv. efold (find_max_step M col) [pr + 1..<nrows] (pr, \<bar>entry M pr col\<bar>) = Inr (mi, mv)
           \<and> pr \<le> mi \<and> mi < nrows \<and> mv = \<bar>entry M mi col\<bar>
           \<and> (\<forall>r. pr \<le> r \<and> r < nrows \<longrightarrow> \<bar>entry M r col\<bar> \<le> mv)
           \<and> (\<forall>r. pr \<le> r \<and> r < mi \<longrightarrow> \<bar>entry M r col\<bar> < mv)"
proof -
  define I where "I = (\<lambda>i (s :: nat \<times> 'a). case s of (mi, mv) \<Rightarrow>
      pr \<le> mi \<and> mi < i \<and> mv = \<bar>entry M mi col\<bar>
      \<and> (\<forall>r. pr \<le> r \<and> r < i \<longrightarrow> \<bar>entry M r col\<bar> \<le> mv)
      \<and> (\<forall>r. pr \<le> r \<and> r < mi \<longrightarrow> \<bar>entry M r col\<bar> < mv))"
  have init: "I (pr + 1) (pr, \<bar>entry M pr col\<bar>)"
    by (auto simp: I_def le_less_Suc_eq)
  have step: "\<exists>s'. find_max_step M col i s = Inr s' \<and> I (Suc i) s'"
    if "pr + 1 \<le> i" "i < nrows" "I i s" for i s
  proof -
    obtain mi mv where s: "s = (mi, mv)" by (cases s)
    have at: "at_m M i col = Inr (entry M i col)"
      using that assms by (simp add: at_m_Inr)
    show ?thesis
    proof (cases "\<bar>entry M i col\<bar> > mv")
      case True
      have "I (Suc i) (i, \<bar>entry M i col\<bar>)"
        using that(1,3) True unfolding I_def s
        by (auto simp: less_Suc_eq intro: less_imp_le le_less_trans)
      then show ?thesis using True at by (simp add: find_max_step_def s)
    next
      case False
      have "I (Suc i) (mi, mv)"
        using that(1,3) False unfolding I_def s
        by (auto simp: less_Suc_eq)
      then show ?thesis using False at by (simp add: find_max_step_def s)
    qed
  qed
  have "\<exists>s'. efold (find_max_step M col) [pr + 1..<nrows] (pr, \<bar>entry M pr col\<bar>) = Inr s' \<and> I nrows s'"
    using init _ step by (rule efold_upt_total) (use assms in simp)
  then show ?thesis by (auto simp: I_def)
qed

lemma clear_entry_props:
  fixes M :: "('a::linordered_field) matrix"
  assumes "wf_matrix M" "src < rows M" "row < rows M" "col < cols M"
  shows "\<exists>M'. ebind (addScaledRow fp M row src k) (\<lambda>M'. set_at M' row col 0) = Inr M'
           \<and> wf_matrix M' \<and> rows M' = rows M \<and> cols M' = cols M
           \<and> (\<forall>r c. r \<noteq> row \<longrightarrow> c < cols M \<longrightarrow> entry M' r c = entry M r c)
           \<and> entry M' row col = 0
           \<and> (\<forall>c. c < cols M \<longrightarrow> c \<noteq> col \<longrightarrow> entry M src c = 0
                 \<longrightarrow> entry M' row c = entry M row c)"
proof -
  from addScaledRow_props [OF assms(1,3,2), of fp k] obtain M1 where
    M1: "addScaledRow fp M row src k = Inr M1" "wf_matrix M1" "rows M1 = rows M"
      "cols M1 = cols M"
      "\<And>i j. j < cols M \<Longrightarrow> entry M1 i j =
                (if i = row \<and> \<not> (fp \<and> \<bar>k\<bar> < 1 / 1000000000)
                 then entry M row j + entry M src j * k else entry M i j)"
    by blast
  from set_at_props [of M1 row col 0] M1 assms obtain M2 where
    M2: "set_at M1 row col 0 = Inr M2" "wf_matrix M2" "rows M2 = rows M1" "cols M2 = cols M1"
      "\<And>i j. entry M2 i j = (if i = row \<and> j = col then 0 else entry M1 i j)"
    by auto
  show ?thesis
    using M1 M2 by auto
qed

lemma eliminate_step_props:
  fixes M :: "('a::linordered_field) matrix"
  assumes "wf_matrix M" "pr < rows M" "row < rows M" "col < cols M"
  shows "\<exists>M'. eliminate_step fp eps pr col row M = Inr M'
           \<and> wf_matrix M' \<and> rows M' = rows M \<and> cols M' = cols M
           \<and> (\<forall>r c. r \<noteq> row \<longrightarrow> c < cols M \<longrightarrow> entry M' r c = entry M r c)
           \<and> entry M' row col = 0
           \<and> (\<forall>c. c < cols M \<longrightarrow> c \<noteq> col \<longrightarrow> entry M pr c = 0
                 \<longrightarrow> entry M' row c = entry M row c)"
proof (cases "\<bar>entry M row col\<bar> < eps")
  case True
  from set_at_props [OF assms(1,3,4), of 0] obtain M' where
    "set_at M row col 0 = Inr M'" "wf_matrix M'" "rows M' = rows M" "cols M' = cols M"
      "\<And>i j. entry M' i j = (if i = row \<and> j = col then 0 else entry M i j)"
    by blast
  then show ?thesis
    using True assms by (simp add: eliminate_step_def at_m_Inr)
next
  case False
  show ?thesis
    using False assms clear_entry_props [OF assms, of fp "- entry M row col / entry M pr col"]
    by (simp add: eliminate_step_def at_m_Inr Let_def)
qed


lemma eliminate_total:
  fixes M1 :: "('a::linordered_field) matrix"
  assumes "wf_matrix M1" "rows M1 = nrows" "col < cols M1" "pr < nrows"
  shows "\<exists>M2. efold (eliminate_step fp eps pr col) [pr + 1..<nrows] M1 = Inr M2
           \<and> wf_matrix M2 \<and> rows M2 = nrows \<and> cols M2 = cols M1
           \<and> (\<forall>r c. r \<le> pr \<longrightarrow> c < cols M1 \<longrightarrow> entry M2 r c = entry M1 r c)
           \<and> (\<forall>r. pr < r \<and> r < nrows \<longrightarrow> entry M2 r col = 0)
           \<and> (\<forall>r c. c < cols M1 \<longrightarrow> c \<noteq> col \<longrightarrow> entry M1 pr c = 0
                 \<longrightarrow> entry M2 r c = entry M1 r c)"
proof -
  define I where "I = (\<lambda>i (M :: 'a matrix).
      wf_matrix M \<and> rows M = nrows \<and> cols M = cols M1
      \<and> (\<forall>r c. r \<le> pr \<longrightarrow> c < cols M1 \<longrightarrow> entry M r c = entry M1 r c)
      \<and> (\<forall>r. pr < r \<and> r < i \<longrightarrow> entry M r col = 0)
      \<and> (\<forall>r c. c < cols M1 \<longrightarrow> c \<noteq> col \<longrightarrow> entry M1 pr c = 0
                 \<longrightarrow> entry M r c = entry M1 r c))"
  have init: "I (pr + 1) M1"
    using assms by (auto simp: I_def)
  have step: "\<exists>M'. eliminate_step fp eps pr col i M = Inr M' \<and> I (Suc i) M'"
    if "pr + 1 \<le> i" "i < nrows" "I i M" for i M
  proof -
    have M: "wf_matrix M" "rows M = nrows" "cols M = cols M1"
      and keep: "\<And>r c. r \<le> pr \<Longrightarrow> c < cols M1 \<Longrightarrow> entry M r c = entry M1 r c"
      and zero: "\<And>r. pr < r \<Longrightarrow> r < i \<Longrightarrow> entry M r col = 0"
      and cols0: "\<And>r c. c < cols M1 \<Longrightarrow> c \<noteq> col \<Longrightarrow> entry M1 pr c = 0
                 \<Longrightarrow> entry M r c = entry M1 r c"
      using that(3) by (auto simp: I_def)
    from eliminate_step_props [of M pr i col fp eps] M assms that obtain M' where
      M': "eliminate_step fp eps pr col i M = Inr M'" "wf_matrix M'" "rows M' = rows M"
        "cols M' = cols M"
        "\<And>r c. r \<noteq> i \<Longrightarrow> c < cols M \<Longrightarrow> entry M' r c = entry M r c"
        "entry M' i col = 0"
        "\<And>c. c < cols M \<Longrightarrow> c \<noteq> col \<Longrightarrow> entry M pr c = 0 \<Longrightarrow> entry M' i c = entry M i c"
      by auto
    have a: "entry M' r c = entry M1 r c" if "r \<le> pr" "c < cols M1" for r c
      using that M'(5) [of r c] keep [of r c] M \<open>pr + 1 \<le> i\<close> by simp
    have b: "entry M' r col = 0" if "pr < r" "r < Suc i" for r
      using that M'(5) [of r col] M'(6) zero [of r] M assms by (cases "r = i") auto
    have c: "entry M' r c = entry M1 r c" if "c < cols M1" "c \<noteq> col" "entry M1 pr c = 0" for r c
    proof (cases "r = i")
      case True
      have "entry M pr c = 0" using keep [of pr c] that by simp
      then show ?thesis using True M'(7) [of c] cols0 [of c i] that M by simp
    next
      case False
      then show ?thesis using M'(5) [of r c] cols0 [of c r] that M by simp
    qed
    have "I (Suc i) M'"
      unfolding I_def using M' M a b c by auto
    then show ?thesis using M'(1) by blast
  qed
  have "\<exists>M2. efold (eliminate_step fp eps pr col) [pr + 1..<nrows] M1 = Inr M2 \<and> I nrows M2"
    using init _ step by (rule efold_upt_total) (use assms in simp)
  then show ?thesis by (auto simp: I_def)
qed

lemma toREF_column_inv:
  fixes S :: "('a::linordered_field) rref"
  assumes inv: "ref_inv eps nrows ncols S col pr" and col: "col < ncols" and pr: "pr < nrows"
  shows "\<exists>S' pr'. toREF_column fp eps nrows col S pr = Inr (S', pr')
           \<and> ref_inv eps nrows ncols S' (col + 1) pr'
           \<and> isREF S' = isREF S \<and> isRREF S' = isRREF S"
proof -
  let ?M = "mat S" and ?pcs = "pivotCols S"
  have M: "wf_matrix ?M" "rows ?M = nrows" "cols ?M = ncols"
    and S: "rank S = pr" "pivotRows S = [0..<pr]" "length ?pcs = pr" "pr \<le> col"
    and pcs: "\<And>c. c \<in> set ?pcs \<Longrightarrow> c < col" "sorted_wrt (<) ?pcs"
    and piv: "\<And>i. i < pr \<Longrightarrow> eps \<le> \<bar>entry ?M i (?pcs ! i)\<bar>"
    and zero: "\<And>i r. i < pr \<Longrightarrow> i < r \<Longrightarrow> r < nrows \<Longrightarrow> entry ?M r (?pcs ! i) = 0"
    using inv by (auto simp: ref_inv_def)
  have pcs_lt: "?pcs ! i < col" if "i < pr" for i
    using pcs(1) [of "?pcs ! i"] that S by simp
  from find_max_total [of ?M nrows col pr] M col pr obtain mi mv where
    fm: "efold (find_max_step ?M col) [pr + 1..<nrows] (pr, \<bar>entry ?M pr col\<bar>) = Inr (mi, mv)"
      and mi: "pr \<le> mi" "mi < nrows" and mv: "mv = \<bar>entry ?M mi col\<bar>"
      and mx: "\<And>r. pr \<le> r \<Longrightarrow> r < nrows \<Longrightarrow> \<bar>entry ?M r col\<bar> \<le> mv"
    by auto
  have at0: "at_m ?M pr col = Inr (entry ?M pr col)"
    using M col pr by (simp add: at_m_Inr)
  show ?thesis
  proof (cases "mv < eps")
    case True
    have "\<bar>entry ?M r col\<bar> < eps" if "pr \<le> r" "r < nrows" for r
      using mx [OF that] True by simp
    then have "ref_inv eps nrows ncols S (col + 1) pr"
      using inv col by (auto simp: ref_inv_def)
    then show ?thesis
      using True at0 fm by (simp add: toREF_column_def)
  next
    case False
    define \<sigma> where "\<sigma> = (\<lambda>i. if i = mi then pr else if i = pr then mi else i)"
    have "\<exists>M1. (if mi \<noteq> pr then exchangeRows ?M mi pr else Inr ?M) = Inr M1
            \<and> wf_matrix M1 \<and> rows M1 = nrows \<and> cols M1 = ncols
            \<and> (\<forall>i j. entry M1 i j = entry ?M (\<sigma> i) j)"
    proof (cases "mi = pr")
      case True
      then show ?thesis using M by (simp add: \<sigma>_def)
    next
      case False
      then show ?thesis
        using exchangeRows_props [of ?M mi pr] M mi pr by (auto simp: \<sigma>_def)
    qed
    then obtain M1 where
      ex: "(if mi \<noteq> pr then exchangeRows ?M mi pr else Inr ?M) = Inr M1"
      and M1: "wf_matrix M1" "rows M1 = nrows" "cols M1 = ncols"
      and M1e: "\<And>i j. entry M1 i j = entry ?M (\<sigma> i) j"
      by blast
    from eliminate_total [of M1 nrows col pr fp eps] M1 col pr obtain M2 where
      el: "efold (eliminate_step fp eps pr col) [pr + 1..<nrows] M1 = Inr M2"
      and M2: "wf_matrix M2" "rows M2 = nrows" "cols M2 = ncols"
      and keep: "\<And>r c. r \<le> pr \<Longrightarrow> c < ncols \<Longrightarrow> entry M2 r c = entry M1 r c"
      and below: "\<And>r. pr < r \<Longrightarrow> r < nrows \<Longrightarrow> entry M2 r col = 0"
      and cols0: "\<And>r c. c < ncols \<Longrightarrow> c \<noteq> col \<Longrightarrow> entry M1 pr c = 0
                 \<Longrightarrow> entry M2 r c = entry M1 r c"
      by auto
    define S' where "S' = S\<lparr>mat := M2, rank := rank S + 1,
                 pivotCols := pivotCols S @ [col],
                 pivotRows := pivotRows S @ [pr]\<rparr>"
    have res: "toREF_column fp eps nrows col S pr = Inr (S', pr + 1)"
      using False at0 fm ex el by (simp add: toREF_column_def S'_def)
    have \<sigma>_gt: "i < \<sigma> r" if "i < pr" "i < r" for i r
      using that mi by (auto simp: \<sigma>_def)
    have \<sigma>_lt: "\<sigma> r < nrows" if "r < nrows" for r
      using that mi pr by (auto simp: \<sigma>_def)
    have \<sigma>_id: "\<sigma> r = r" if "r < pr" for r
      using that mi by (auto simp: \<sigma>_def)
    have nth: "(?pcs @ [col]) ! i = (if i < pr then ?pcs ! i else col)" if "i < pr + 1" for i
      using that S by (auto simp: nth_append)
    have p1: "eps \<le> \<bar>entry M2 i ((?pcs @ [col]) ! i)\<bar>" if "i < pr + 1" for i
    proof (cases "i < pr")
      case True
      have "entry M2 i (?pcs ! i) = entry ?M i (?pcs ! i)"
        using keep [of i "?pcs ! i"] M1e [of i "?pcs ! i"] \<sigma>_id [OF True] True pcs_lt [OF True] col
        by simp
      then show ?thesis using piv [OF True] nth [OF that] True by simp
    next
      case False
      then have i: "i = pr" using that by simp
      have "entry M2 pr col = entry ?M mi col"
        using keep [of pr col] M1e [of pr col] col by (simp add: \<sigma>_def)
      then show ?thesis using \<open>\<not> mv < eps\<close> mv nth [OF that] i by simp
    qed
    have z1: "entry M2 r ((?pcs @ [col]) ! i) = 0" if "i < pr + 1" "i < r" "r < nrows" for i r
    proof (cases "i < pr")
      case True
      let ?c = "?pcs ! i"
      have c: "?c < ncols" "?c \<noteq> col" using pcs_lt [OF True] col by auto
      have m1: "entry M1 r' ?c = 0" if "i < r'" "r' < nrows" for r'
        using M1e [of r' ?c] zero [OF True \<sigma>_gt [OF True that(1)] \<sigma>_lt [OF that(2)]] by simp
      have "entry M2 r ?c = entry M1 r ?c"
        using cols0 [of ?c r] c m1 [of pr] True pr by simp
      then show ?thesis using m1 [of r] that nth [OF that(1)] True by simp
    next
      case False
      then have i: "i = pr" using that by simp
      show ?thesis using below [of r] that nth [OF that(1)] i by simp
    qed
    have sorted: "sorted_wrt (<) (?pcs @ [col])"
      using pcs by (simp add: sorted_wrt_append)
    have "ref_inv eps nrows ncols S' (col + 1) (pr + 1)"
      unfolding ref_inv_def S'_def
      using M2 S pr col sorted p1 z1 pcs(1) by (auto simp: less_Suc_eq)
    then show ?thesis
      using res by (simp add: S'_def)
  qed
qed

lemma toREF_loop_inv:
  fixes S :: "('a::linordered_field) rref"
  assumes "ref_inv eps nrows ncols S col pr"
  shows "\<exists>S' col'. toREF_loop fp eps nrows ncols S col pr = Inr S'
           \<and> ref_inv eps nrows ncols S' col' (rank S')
           \<and> (col' = ncols \<or> rank S' = nrows)
           \<and> isREF S' = isREF S \<and> isRREF S' = isRREF S"
  using assms
proof (induction fp eps nrows ncols S col pr rule: toREF_loop.induct)
  case (1 fp eps nrows ncols S col pivotRow)
  show ?case
  proof (cases "col < ncols \<and> pivotRow < nrows")
    case True
    from toREF_column_inv [of eps nrows ncols S col pivotRow fp] "1.prems" True
    obtain S1 pr1 where
      st: "toREF_column fp eps nrows col S pivotRow = Inr (S1, pr1)"
      and inv1: "ref_inv eps nrows ncols S1 (col + 1) pr1"
      and fl: "isREF S1 = isREF S" "isRREF S1 = isRREF S"
      by blast
    from "1.IH" [OF True st refl inv1] obtain S' col' where
      "toREF_loop fp eps nrows ncols S1 (col + 1) pr1 = Inr S'"
      "ref_inv eps nrows ncols S' col' (rank S')"
      "col' = ncols \<or> rank S' = nrows"
      "isREF S' = isREF S1" "isRREF S' = isRREF S1"
      by blast
    then show ?thesis
      using True st fl by (subst toREF_loop.simps) auto
  next
    case False
    have "rank S = pivotRow" "col \<le> ncols" "pivotRow \<le> nrows"
      using "1.prems" by (simp_all add: ref_inv_def)
    then have "ref_inv eps nrows ncols S col (rank S) \<and> (col = ncols \<or> rank S = nrows)"
      using False "1.prems" by auto
    then show ?thesis
      using False by (subst toREF_loop.simps) auto
  qed
qed

lemma toREF_total:
  fixes S :: "('a::linordered_field) rref"
  assumes "wf_matrix (mat S)"
  shows "\<exists>S'. toREF fp eps S = Inr S' \<and> ref_form eps S'
           \<and> rows (mat S') = rows (mat S) \<and> cols (mat S') = cols (mat S)
           \<and> isREF S' \<and> isRREF S' = isRREF S"
proof -
  let ?S0 = "S\<lparr>rank := 0, pivotCols := [], pivotRows := []\<rparr>"
  have "ref_inv eps (rows (mat S)) (cols (mat S)) ?S0 0 0"
    using assms by (simp add: ref_inv_def)
  from toREF_loop_inv [OF this, of fp] obtain S' col' where
    S': "toREF_loop fp eps (rows (mat S)) (cols (mat S)) ?S0 0 0 = Inr S'"
      "ref_inv eps (rows (mat S)) (cols (mat S)) S' col' (rank S')"
      "col' = cols (mat S) \<or> rank S' = rows (mat S)"
      "isREF S' = isREF ?S0" "isRREF S' = isRREF ?S0"
    by blast
  have d: "rows (mat S') = rows (mat S)" "cols (mat S') = cols (mat S)"
    using S'(2) by (simp_all add: ref_inv_def)
  have "ref_form eps (S'\<lparr>isREF := True\<rparr>)"
    unfolding ref_form_def using S'(2,3) d by (auto simp: ref_inv_def)
  then show ?thesis
    using S' d by (simp add: toREF_def Let_def)
qed

section \<open>The reduced row-echelon form\<close>









text \<open>The definitions a concrete run unfolds.\<close>

lemma replicate_numeral_Cons: "replicate (numeral k) x = x # replicate (pred_numeral k) x"
  by (simp add: numeral_eq_Suc)

lemmas eval_defs = toREF_loop.simps toRREF_def toREF_def RREF_new_def Matrix_of_def Let_def toREF_column_def
  at_m_def set_at_def find_max_step_def default_eps_def scale_step_def scaleRow_def
  eliminate_step_def addScaledRow_def exchangeRows_def back_pivot_def back_step_def
  cleanup_row_def cleanup_step_def upt_conv_Cons replicate_numeral_Cons
  getKernel_def free_cols_def kernel_vector_def mat_vec_def row_dot_def entry_def




section \<open>Pivot rows and the classification of a linear system\<close>

lemma toRREF_meta:
  assumes "toRREF fp eps S = Inr S'"
  shows "\<exists>S1. (if \<not> isREF S then toREF fp eps S else Inr S) = Inr S1
           \<and> rank S' = rank S1 \<and> pivotCols S' = pivotCols S1 \<and> pivotRows S' = pivotRows S1
           \<and> isREF S' = isREF S1 \<and> isRREF S'"
  using assms unfolding toRREF_def Let_def ebind_eq_Inr by auto

lemma toREF_pivot_meta:
  fixes S :: "('a::linordered_field) rref"
  assumes "wf_matrix (mat S)"
  shows "\<exists>S'. toREF fp eps S = Inr S' \<and> pivotRows S' = [0..<rank S']
           \<and> length (pivotCols S') = rank S' \<and> isREF S'"
proof -
  from toREF_total [OF assms, of fp eps] obtain S' where
    "toREF fp eps S = Inr S'" "ref_form eps S'" "isREF S'"
    by blast
  then show ?thesis
    by (auto simp: ref_form_def ref_inv_def)
qed

lemma toRREF_pivot_meta:
  fixes M :: "('a::linordered_field) matrix"
  assumes "wf_matrix M" "toRREF fp eps (RREF_new M) = Inr S"
  shows "pivotRows S = [0..<rank S] \<and> length (pivotCols S) = rank S"
proof -
  from toRREF_meta [OF assms(2)] obtain S1 where
    S1: "toREF fp eps (RREF_new M) = Inr S1" "rank S = rank S1" "pivotCols S = pivotCols S1"
      "pivotRows S = pivotRows S1"
    by (auto simp: RREF_new_def)
  from toREF_pivot_meta [of "RREF_new M" fp eps] assms(1) S1(1)
  have "pivotRows S1 = [0..<rank S1] \<and> length (pivotCols S1) = rank S1"
    by (auto simp: RREF_new_def)
  then show ?thesis using S1 by simp
qed

lemma augment_wf:
  assumes "augment A b = Inr aug"
  shows "wf_matrix aug \<and> rows aug = rows A \<and> cols aug = cols A + cols b"
  using assms
  by (auto simp: augment_def Matrix_new_def wf_matrix_def ebind_eq_Inr split: if_splits)

lemma rhs_has_pivot_iff: "rhs_has_pivot pcs n \<longleftrightarrow> n \<in> int ` set pcs"
  by (induction pcs) auto

lemma solve_fields:
  "augmented (snd (solve s)) = augmented s" "rrefMatrix (snd (solve s)) = rrefMatrix s"
  "rrefSolver (snd (solve s)) = rrefSolver s" "particular (snd (solve s)) = particular s"
  "nullspace (snd (solve s)) = nullspace s" "solutionType (snd (solve s)) = fst (solve s)"
  by (simp_all add: solve_def Let_def)

lemma solve_idem: "solve (snd (solve s)) = (fst (solve s), snd (solve s))"
  by (simp add: solve_def Let_def)

lemma SolvingEquation_new_Inr:
  assumes "SolvingEquation_new fp A b = Inr s"
  shows "\<exists>aug rs. augment A b = Inr aug \<and> rows b = rows A \<and> cols b = 1
           \<and> toRREF fp default_eps (RREF_new aug) = Inr rs
           \<and> augmented s = aug \<and> rrefMatrix s = mat rs \<and> rrefSolver s = rs
           \<and> particular s = [] \<and> nullspace s = []
           \<and> solutionType s = fst (solve s)"
proof -
  from assms obtain aug where aug: "augment A b = Inr aug"
    by (cases "augment A b") (auto simp: SolvingEquation_new_def)
  have dims: "rows b = rows A" "cols b = 1"
    using assms aug by (auto simp: SolvingEquation_new_def split: if_splits)
  from assms aug dims obtain rs where rs: "toRREF fp default_eps (RREF_new aug) = Inr rs"
    by (cases "toRREF fp default_eps (RREF_new aug)") (auto simp: SolvingEquation_new_def)
  define s0 where "s0 = \<lparr>augmented = aug, rrefMatrix = mat rs, rrefSolver = rs,
                           solutionType = NoSolution, particular = [], nullspace = []\<rparr>"
  have s: "s = snd (solve s0)"
    using assms aug dims rs by (simp add: SolvingEquation_new_def s0_def)
  have "solutionType s = fst (solve s)"
    unfolding s by (simp add: solve_idem solve_fields)
  then show ?thesis
    using aug dims rs unfolding s by (simp add: solve_fields s0_def)
qed

lemma solve_classify:
  assumes "cols (augmented s) = Suc n"
  shows "fst (solve s) = classify_rule n (pivotCols (rrefSolver s))"
  using assms by (auto simp: solve_def classify_rule_def Let_def rhs_has_pivot_iff)

lemma scenario3_run:
  "SolvingEquation_new fp (Matrix_of [[1, 1], [2, 2]]) (Matrix_of [[1], [3]]) =
     Inr \<lparr>augmented = \<lparr>rows = 2, cols = 3, data = [[1, 1, 1], [2, 2, 3::'a::linordered_field]]\<rparr>,
        rrefMatrix = \<lparr>rows = 2, cols = 3, data = [[1, 1, 0], [0, 0, 1]]\<rparr>,
        rrefSolver =
          \<lparr>mat = \<lparr>rows = 2, cols = 3, data = [[1, 1, 0], [0, 0, 1]]\<rparr>,
             rank = 2, pivotCols = [0, 2], pivotRows = [0, 1], isREF = True,
             isRREF = True\<rparr>,
        solutionType = NoSolution, particular = [], nullspace = []\<rparr>"
  by (simp add: SolvingEquation_new_def augment_def Matrix_new_def solve_def eval_defs)


lemma scenario1_run:
  "SolvingEquation_new fp (Matrix_of [[2, 1], [1, 3]]) (Matrix_of [[3], [4]]) =
     Inr \<lparr>augmented = \<lparr>rows = 2, cols = 3, data = [[2, 1, 3], [1, 3, 4::'a::linordered_field]]\<rparr>,
        rrefMatrix = \<lparr>rows = 2, cols = 3, data = [[1, 0, 1], [0, 1, 1]]\<rparr>,
        rrefSolver =
          \<lparr>mat = \<lparr>rows = 2, cols = 3, data = [[1, 0, 1], [0, 1, 1]]\<rparr>,
             rank = 2, pivotCols = [0, 1], pivotRows = [0, 1], isREF = True,
             isRREF = True\<rparr>,
        solutionType = UniqueSolution, particular = [], nullspace = []\<rparr>"
  by (simp add: SolvingEquation_new_def augment_def Matrix_new_def solve_def eval_defs)

text \<open>
  \<^bold>\<open>C1.\<close> For a matrix \<open>A\<close> with \<open>n\<close> columns and a column vector \<open>b\<close> with as many rows,
  the solver constructed on \<open>[A | b]\<close> holds the reduced augmented matrix, and its
  classification is the rule of the specification applied to the pivot columns of that
  reduction: \<open>NoSolution\<close> if \<open>n\<close> is a pivot column, else \<open>UniqueSolution\<close> if there are
  \<open>n\<close> pivots, else \<open>InfiniteSolutions\<close>. The system \<open>A = [[1,1],[2,2]]\<close>,
  \<open>b = [[1],[3]]\<close> is classified \<open>NoSolution\<close>.
\<close>

theorem solve_classifies_by_pivot_columns:
  fixes A :: "('a::linordered_field) matrix"
  assumes "rows b = rows A" "cols b = 1" "SolvingEquation_new fp A b = Inr s"
  shows "(\<exists>aug rs. augment A b = Inr aug \<and> toRREF fp default_eps (RREF_new aug) = Inr rs
            \<and> augmented s = aug \<and> rrefSolver s = rs
            \<and> solutionType s = classify_rule (cols A) (pivotCols rs))
         \<and> (\<exists>s3 :: 'a solving_equation.
              SolvingEquation_new fp (Matrix_of [[1, 1], [2, 2]]) (Matrix_of [[1], [3]]) = Inr s3
              \<and> solutionType s3 = NoSolution)"
proof -
  from SolvingEquation_new_Inr [OF assms(3)] obtain aug rs where
    a: "augment A b = Inr aug" "toRREF fp default_eps (RREF_new aug) = Inr rs"
      "augmented s = aug" "rrefSolver s = rs" "solutionType s = fst (solve s)"
    by blast
  have "cols (augmented s) = Suc (cols A)"
    using augment_wf [OF a(1)] a(3) assms(2) by simp
  from solve_classify [OF this] a
  have "\<exists>aug rs. augment A b = Inr aug \<and> toRREF fp default_eps (RREF_new aug) = Inr rs
            \<and> augmented s = aug \<and> rrefSolver s = rs
            \<and> solutionType s = classify_rule (cols A) (pivotCols rs)"
    by simp
  moreover have "\<exists>s3 :: 'a solving_equation.
              SolvingEquation_new fp (Matrix_of [[1, 1], [2, 2]]) (Matrix_of [[1], [3]]) = Inr s3
              \<and> solutionType s3 = NoSolution"
    by (simp add: scenario3_run)
  ultimately show ?thesis by blast
qed

theorem solve_classifies_by_pivot_columns_witness:
  "rows (Matrix_of [[3], [4::rat]]) = rows (Matrix_of [[2, 1], [1, 3::rat]])
   \<and> cols (Matrix_of [[3], [4::rat]]) = 1
   \<and> (\<exists>s. SolvingEquation_new True (Matrix_of [[2, 1], [1, 3::rat]]) (Matrix_of [[3], [4]]) = Inr s
          \<and> solutionType s = classify_rule 2 (pivotCols (rrefSolver s))
          \<and> solutionType s = UniqueSolution)"
proof -
  have d: "rows (Matrix_of [[3], [4::rat]]) = rows (Matrix_of [[2, 1], [1, 3::rat]])"
    "cols (Matrix_of [[3], [4::rat]]) = 1" "cols (Matrix_of [[2, 1], [1, 3::rat]]) = 2"
    by (simp_all add: Matrix_of_def)
  show ?thesis
    using solve_classifies_by_pivot_columns [OF d(1,2) scenario1_run [of True]] d
    by (auto simp: scenario1_run)
qed

text \<open>
  \<^bold>\<open>C9.\<close> After \<open>toREF\<close>, and so after \<open>toRREF\<close>, the recorded pivot rows are exactly
  \<open>0, 1, \<dots>, rank - 1\<close>: the \<open>i\<close>-th pivot sits in row \<open>i\<close>. The same holds inside a
  solver, whose \<open>computeSolution\<close> reads row \<open>i\<close> of the reduced matrix for the \<open>i\<close>-th
  pivot.
\<close>

theorem pivotRows_consecutive:
  fixes M :: "('a::linordered_field) matrix"
  assumes "wf_matrix M" "0 < eps"
  shows "(\<exists>S. toREF fp eps (RREF_new M) = Inr S \<and> pivotRows S = [0..<rank S]
             \<and> length (pivotCols S) = rank S)
         \<and> (\<forall>S. toRREF fp eps (RREF_new M) = Inr S \<longrightarrow>
               pivotRows S = [0..<rank S] \<and> (\<forall>i<rank S. pivotRows S ! i = i))
         \<and> (\<forall>A b s. SolvingEquation_new fp A b = Inr (s :: 'a solving_equation) \<longrightarrow>
               (\<forall>i<length (pivotCols (rrefSolver s)). pivotRows (rrefSolver s) ! i = i))"
proof -
  have 1: "\<exists>S. toREF fp eps (RREF_new M) = Inr S \<and> pivotRows S = [0..<rank S]
             \<and> length (pivotCols S) = rank S"
    using toREF_pivot_meta [of "RREF_new M" fp eps] assms(1) by (auto simp: RREF_new_def)
  have 2: "pivotRows S = [0..<rank S] \<and> (\<forall>i<rank S. pivotRows S ! i = i)"
    if "toRREF fp eps (RREF_new M) = Inr S" for S
    using toRREF_pivot_meta [OF assms(1) that] by simp
  have 3: "\<forall>i<length (pivotCols (rrefSolver s)). pivotRows (rrefSolver s) ! i = i"
    if "SolvingEquation_new fp A b = Inr s" for A b and s :: "'a solving_equation"
  proof -
    from SolvingEquation_new_Inr [OF that] obtain aug where
      aug: "augment A b = Inr aug" "toRREF fp default_eps (RREF_new aug) = Inr (rrefSolver s)"
      by auto
    from toRREF_pivot_meta [OF _ aug(2)] augment_wf [OF aug(1)] show ?thesis by simp
  qed
  from 1 2 3 show ?thesis by blast
qed

theorem pivotRows_consecutive_witness:
  "wf_matrix (Matrix_of [[1, 1, 1], [2, 2, 3::rat]]) \<and> (0::rat) < default_eps
   \<and> (\<exists>S. toRREF True default_eps (RREF_new (Matrix_of [[1, 1, 1], [2, 2, 3::rat]])) = Inr S
          \<and> rank S = 2 \<and> pivotRows S = [0..<rank S])"
proof -
  have w: "wf_matrix (Matrix_of [[1, 1, 1], [2, 2, 3::rat]])" "(0::rat) < default_eps"
    by (simp_all add: wf_matrix_def Matrix_of_def default_eps_def)
  have r: "toRREF True default_eps (RREF_new (Matrix_of [[1, 1, 1], [2, 2, 3::rat]])) =
      Inr \<lparr>mat = \<lparr>rows = 2, cols = 3, data = [[1, 1, 0], [0, 0, 1]]\<rparr>, rank = 2,
         pivotCols = [0, 2], pivotRows = [0, 1], isREF = True, isRREF = True\<rparr>"
    by (simp add: eval_defs)
  show ?thesis
    using pivotRows_consecutive [OF w, of True] w r by simp
qed

text \<open>
  \<^bold>\<open>C10.\<close> \<open>toRREF\<close> is not total on well-shaped matrices. On the \<open>1 \<times> 1\<close> matrix
  \<open>[[2e9]]\<close> of a floating-point scalar type, \<open>toREF\<close> finds the pivot (rank 1), the
  forward pass computes the scale factor \<open>1 / 2e9 < 1e-9\<close>, and \<open>scaleRow\<close> rejects it:
  \<open>toRREF\<close> ends in the invalid-argument error \<open>Scaling factor too small\<close>. Without
  the floating-point guard the same matrix reduces to \<open>[[1]]\<close>.
\<close>

theorem toRREF_rejects_large_pivot:
  "toRREF True (default_eps :: 'a::linordered_field) (RREF_new (Matrix_of [[2000000000]])) =
     Inl (InvalidArgument ''Scaling factor too small'')
   \<and> toREF True (default_eps :: 'a) (RREF_new (Matrix_of [[2000000000]])) =
     Inr \<lparr>mat = \<lparr>rows = 1, cols = 1, data = [[2000000000]]\<rparr>, rank = 1,
          pivotCols = [0], pivotRows = [0], isREF = True, isRREF = False\<rparr>
   \<and> scaleRow True (Matrix_of [[2000000000 :: 'a]]) 0 (1 / 2000000000) =
     Inl (InvalidArgument ''Scaling factor too small'')
   \<and> toRREF False (default_eps :: 'a) (RREF_new (Matrix_of [[2000000000]])) =
     Inr \<lparr>mat = \<lparr>rows = 1, cols = 1, data = [[1]]\<rparr>, rank = 1,
          pivotCols = [0], pivotRows = [0], isREF = True, isRREF = True\<rparr>"
  by (simp add: eval_defs)

section \<open>The kernel basis\<close>




















section \<open>The solution of a linear system\<close>















section \<open>The row-echelon reduction and its description\<close>

lemma put_dims [simp]: "rows (put M r c v) = rows M" "cols (put M r c v) = cols M"
  by (simp_all add: put_def)

lemma swap_rows_dims [simp]: "rows (swap_rows M a b) = rows M" "cols (swap_rows M a b) = cols M"
  by (simp_all add: swap_rows_def)

lemma add_scaled_row_dims [simp]:
  "rows (add_scaled_row fp M t s k) = rows M" "cols (add_scaled_row fp M t s k) = cols M"
  by (simp_all add: add_scaled_row_def)

lemma eliminate_guarded_dims [simp]:
  "rows (eliminate_guarded fp eps pr col M r) = rows M"
  "cols (eliminate_guarded fp eps pr col M r) = cols M"
  by (simp_all add: eliminate_guarded_def eliminate_literal_def)

















section \<open>The eigen-decomposition routine\<close>



lemma efold_fixed_point: "f s = Inr s \<Longrightarrow> efold (\<lambda>k. f) xs s = Inr s"
  by (induction xs) simp_all




lemma eigen_Inr:
  assumes "eigen sq fp M max_iter = Inr res"
  shows "isSquare M"
    "\<exists>A_iter. efold (\<lambda>k. qr_step sq) [0..<nat max_iter] M = Inr A_iter
       \<and> emap (\<lambda>i. at_m A_iter i i) [0..<rows M] = Inr (eigenvalues res)"
    "efold (\<lambda>lam vecs. ebind (eigenvector_slot sq fp M lam) (\<lambda>slot. Inr (vecs @ slot)))
       (eigenvalues res) [] = Inr (eigenvectors res)"
proof -
  show sq: "isSquare M" using assms by (auto simp: eigen_def split: if_splits)
  from assms sq obtain A_iter where A: "efold (\<lambda>k. qr_step sq) [0..<nat max_iter] M = Inr A_iter"
    by (cases "efold (\<lambda>k. qr_step sq) [0..<nat max_iter] M") (auto simp: eigen_def)
  from assms sq A obtain evs where evs: "emap (\<lambda>i. at_m A_iter i i) [0..<rows M] = Inr evs"
    by (cases "emap (\<lambda>i. at_m A_iter i i) [0..<rows M]") (auto simp: eigen_def)
  from assms sq A evs obtain vecs where
    vecs: "efold (\<lambda>lam vecs. ebind (eigenvector_slot sq fp M lam) (\<lambda>slot. Inr (vecs @ slot)))
       evs [] = Inr vecs"
    by (cases "efold (\<lambda>lam vecs. ebind (eigenvector_slot sq fp M lam) (\<lambda>slot. Inr (vecs @ slot)))
       evs []") (auto simp: eigen_def)
  have res: "res = \<lparr>eigenvalues = evs, eigenvectors = vecs\<rparr>"
    using assms sq A evs vecs by (simp add: eigen_def)
  show "\<exists>A_iter. efold (\<lambda>k. qr_step sq) [0..<nat max_iter] M = Inr A_iter
       \<and> emap (\<lambda>i. at_m A_iter i i) [0..<rows M] = Inr (eigenvalues res)"
    using A evs res by simp
  show "efold (\<lambda>lam vecs. ebind (eigenvector_slot sq fp M lam) (\<lambda>slot. Inr (vecs @ slot)))
       (eigenvalues res) [] = Inr (eigenvectors res)"
    using vecs res by simp
qed

lemma slots_concat:
  assumes "efold (\<lambda>x acc. ebind (g x) (\<lambda>slot. Inr (acc @ slot))) xs acc0 = Inr acc"
  shows "\<exists>slots. list_all2 (\<lambda>x slot. g x = Inr slot) xs slots \<and> acc = acc0 @ concat slots"
  using assms
proof (induction xs arbitrary: acc0)
  case Nil
  then show ?case by simp
next
  case (Cons x xs)
  from Cons.prems obtain slot where
    s: "g x = Inr slot"
      "efold (\<lambda>x acc. ebind (g x) (\<lambda>slot. Inr (acc @ slot))) xs (acc0 @ slot) = Inr acc"
    by (cases "g x") auto
  from Cons.IH [OF s(2)] obtain slots where
    "list_all2 (\<lambda>x slot. g x = Inr slot) xs slots" "acc = (acc0 @ slot) @ concat slots"
    by blast
  then have "list_all2 (\<lambda>x slot. g x = Inr slot) (x # xs) (slot # slots)
      \<and> acc = acc0 @ concat (slot # slots)"
    using s(1) by simp
  then show ?case by blast
qed

lemma eigenvector_slot_Inr:
  fixes M :: "('a::linordered_field) matrix"
  assumes "eigenvector_slot sq fp M lam = Inr slot"
  shows "\<exists>I L C basis S. identity (rows M) = Inr I \<and> scale_m I lam = Inr L
           \<and> minus_m M L = Inr C \<and> getKernel fp default_eps (RREF_new C) = Inr (basis, S)
           \<and> slot = (if basis = [] then [replicate (rows M) 0]
                     else map (normalized_or_self sq) basis)"
proof -
  from assms obtain I :: "'a matrix" where I: "identity (rows M) = Inr I"
    by (cases "identity (rows M) :: error + 'a matrix") (auto simp: eigenvector_slot_def)
  from assms I obtain L where L: "scale_m I lam = Inr L"
    by (cases "scale_m I lam") (auto simp: eigenvector_slot_def)
  from assms I L obtain C where C: "minus_m M L = Inr C"
    by (cases "minus_m M L") (auto simp: eigenvector_slot_def)
  from assms I L C obtain basis S where
    K: "getKernel fp default_eps (RREF_new C) = Inr (basis, S)"
    by (cases "getKernel fp default_eps (RREF_new C)") (auto simp: eigenvector_slot_def)
  have "slot = (if basis = [] then [replicate (rows M) 0]
                     else map (normalized_or_self sq) basis)"
    using assms I L C K by (auto simp: eigenvector_slot_def)
  then show ?thesis using I L C K by blast
qed

lemma length_concat_nonempty:
  assumes "\<forall>s \<in> set slots. s \<noteq> []"
  shows "length slots \<le> length (concat slots)"
  using assms
proof (induction slots)
  case Nil
  then show ?case by simp
next
  case (Cons s slots)
  then obtain x xs where "s = x # xs" "length slots \<le> length (concat slots)"
    by (cases s) auto
  then show ?case by simp
qed


text \<open>
  \<^bold>\<open>C7, amended.\<close> \<open>eigen\<close> fails with the logic error on every input that is not square.
  On a square input, whenever it returns, the eigenvectors are the concatenation of one
  non-empty slot per eigenvalue \<open>\<lambda>\<close>, in order: the kernel of \<open>A - \<lambda>I\<close> (on the original \<open>A\<close>)
  with each vector normalized, or left as it is when normalization fails, or a single
  zero vector when that kernel is empty; so there is at least one eigenvector entry per
  eigenvalue. A failure of the kernel computation itself is not absorbed: the slot, and
  with it \<open>eigen\<close>, fails.
\<close>

theorem eigen_slots:
  fixes M :: "('a::linordered_field) matrix"
  shows "(\<not> isSquare M \<longrightarrow>
            eigen sq fp M max_iter = Inl (LogicError ''Eigen decomposition only for square matrices''))
         \<and> (\<forall>res. eigen sq fp M max_iter = Inr res \<longrightarrow>
              (\<exists>slots. list_all2 (\<lambda>lam slot. eigenvector_slot sq fp M lam = Inr slot \<and> slot \<noteq> [])
                          (eigenvalues res) slots
                 \<and> eigenvectors res = concat slots)
              \<and> length (eigenvalues res) \<le> length (eigenvectors res))
         \<and> (\<forall>lam slot. eigenvector_slot sq fp M lam = Inr slot \<longrightarrow>
              (\<exists>I L C basis S. identity (rows M) = Inr I \<and> scale_m I lam = Inr L
                 \<and> minus_m M L = Inr C \<and> getKernel fp default_eps (RREF_new C) = Inr (basis, S)
                 \<and> slot = (if basis = [] then [replicate (rows M) 0]
                            else map (normalized_or_self sq) basis)))
         \<and> (\<forall>v e. Vector_normalized sq v (1 / 1000000000) = Inl e \<longrightarrow> normalized_or_self sq v = v)"
proof -
  have 1: "eigen sq fp M max_iter = Inl (LogicError ''Eigen decomposition only for square matrices'')"
    if "\<not> isSquare M"
    using that by (simp add: eigen_def)
  have ne: "slot \<noteq> []" if "eigenvector_slot sq fp M lam = Inr slot" for lam slot
    using eigenvector_slot_Inr [OF that] by (auto split: if_splits)
  have 2: "(\<exists>slots. list_all2 (\<lambda>lam slot. eigenvector_slot sq fp M lam = Inr slot \<and> slot \<noteq> [])
                          (eigenvalues res) slots
                 \<and> eigenvectors res = concat slots)
              \<and> length (eigenvalues res) \<le> length (eigenvectors res)"
    if "eigen sq fp M max_iter = Inr res" for res
  proof -
    from slots_concat [OF eigen_Inr(3) [OF that]] obtain slots where
      s: "list_all2 (\<lambda>lam slot. eigenvector_slot sq fp M lam = Inr slot) (eigenvalues res) slots"
        "eigenvectors res = concat slots"
      by auto
    have s': "list_all2 (\<lambda>lam slot. eigenvector_slot sq fp M lam = Inr slot \<and> slot \<noteq> [])
                (eigenvalues res) slots"
      using s(1) ne by (auto simp: list_all2_conv_all_nth)
    have "\<forall>sl \<in> set slots. sl \<noteq> []"
      using s' by (auto simp: list_all2_conv_all_nth in_set_conv_nth)
    then have "length slots \<le> length (concat slots)" by (rule length_concat_nonempty)
    then show ?thesis using s' s(2) list_all2_lengthD [OF s(1)] by auto
  qed
  have 3: "normalized_or_self sq v = v" if "Vector_normalized sq v (1 / 1000000000) = Inl e" for v e
    using that by (simp add: normalized_or_self_def)
  show ?thesis
    using 1 2 3 eigenvector_slot_Inr by blast
qed

subsection \<open>Two runs with the real square root\<close>

lemma sqrt_2_62: "sqrt 4611686018427387904 = 2147483648"
  by (rule real_sqrt_unique) simp_all

lemma sqrt_9: "sqrt 9 = 3"
  by (rule real_sqrt_unique) simp_all

lemmas eigen_eval_defs = qr_step_def qr_decomposition_def getCol_def qr_column_def
  qr_project_def Vector_at_def Vector_scale_def Vector_div_def Vector_sub_assign_def
  Vector_dot_def Vector_norm_def Vector_normalized_def for_entries_def Matrix_new_def
  transpose_m_def times_m_def scale_m_def minus_m_def identity_def isSquare_def
  eigenvector_slot_def normalized_or_self_def sqrt_2_62 sqrt_9

lemma qr_step_big: "qr_step sqrt (Matrix_of [[2147483648, 0], [0, 0]]) =
    Inr (Matrix_of [[2147483648, 0], [0, 0]])"
  by (simp add: eval_defs eigen_eval_defs)

lemma qr_step_diag: "qr_step sqrt (Matrix_of [[2, 0], [0, 3]]) =
    Inr (Matrix_of [[2, 0], [0, 3]])"
  by (simp add: eval_defs eigen_eval_defs)

lemma slot_big: "eigenvector_slot sqrt True (Matrix_of [[2147483648, 0], [0, 0]]) 2147483648 =
    Inl (InvalidArgument ''Scaling factor too small'')"
  by (simp add: eval_defs eigen_eval_defs)

lemma slot_2: "eigenvector_slot sqrt True (Matrix_of [[2, 0], [0, 3]]) 2 = Inr [[1, 0]]"
  by (simp add: eval_defs eigen_eval_defs)

lemma slot_3: "eigenvector_slot sqrt True (Matrix_of [[2, 0], [0, 3]]) 3 = Inr [[0, 1]]"
  by (simp add: eval_defs eigen_eval_defs)

lemma eigen_diag_run:
  "eigen sqrt True (Matrix_of [[2, 0], [0, 3]]) 1000 =
     Inr \<lparr>eigenvalues = [2, 3], eigenvectors = [[1, 0], [0, 1]]\<rparr>"
proof -
  let ?D = "Matrix_of [[2, 0], [0, 3::real]]"
  have it: "efold (\<lambda>k. qr_step sqrt) [0..<1000] ?D = Inr ?D"
    by (rule efold_fixed_point) (rule qr_step_diag)
  have d: "emap (\<lambda>i. at_m ?D i i) [0..<rows ?D] = Inr [2, 3]"
    by (simp add: eval_defs)
  have sq: "isSquare ?D" by (simp add: isSquare_def Matrix_of_def)
  show ?thesis
    using sq by (simp add: eigen_def it d slot_2 slot_3)
qed

text \<open>
  \<^bold>\<open>C7.\<close> A square input on which \<open>eigen\<close> does not absorb the failure of an eigenvalue's
  extraction. On \<open>diag(2^31, 0)\<close> the QR iteration stays at the matrix, the first
  eigenvalue is \<open>2^31\<close>, the shifted matrix \<open>diag(0, -2^31)\<close> has a pivot of magnitude above
  \<open>1e9\<close>, \<open>getKernel\<close> fails in \<open>scaleRow\<close>, and the failure leaves \<open>eigen\<close>: no
  eigenvector sequence is returned.
\<close>

theorem eigen_propagates_counterexample:
  "isSquare (Matrix_of [[2147483648, 0], [0, 0::real]])
   \<and> eigen_default sqrt True (Matrix_of [[2147483648, 0], [0, 0]]) =
       Inl (InvalidArgument ''Scaling factor too small'')"
proof -
  let ?D = "Matrix_of [[2147483648, 0], [0, 0::real]]"
  have it: "efold (\<lambda>k. qr_step sqrt) [0..<1000] ?D = Inr ?D"
    by (rule efold_fixed_point) (rule qr_step_big)
  have d: "emap (\<lambda>i. at_m ?D i i) [0..<rows ?D] = Inr [2147483648, 0]"
    by (simp add: eval_defs)
  have sq: "isSquare ?D" by (simp add: isSquare_def Matrix_of_def)
  show ?thesis
    using sq by (simp add: eigen_default_def eigen_def it d slot_big)
qed


theorem eigen_slots_witness:
  "\<not> isSquare (Matrix_of [[1, 2::real]])
   \<and> eigen sqrt True (Matrix_of [[1, 2]]) 1000 =
       Inl (LogicError ''Eigen decomposition only for square matrices'')
   \<and> eigen sqrt True (Matrix_of [[2, 0], [0, 3]]) 1000 =
       Inr \<lparr>eigenvalues = [2, 3], eigenvectors = [[1, 0], [0, 1]]\<rparr>
   \<and> length [2, 3::real] \<le> length [[1, 0], [0, 1::real]]"
proof -
  have n: "\<not> isSquare (Matrix_of [[1, 2::real]])" by (simp add: isSquare_def Matrix_of_def)
  from eigen_slots [of "Matrix_of [[1, 2::real]]" sqrt True 1000] n
  have a: "eigen sqrt True (Matrix_of [[1, 2]]) 1000 =
       Inl (LogicError ''Eigen decomposition only for square matrices'')"
    by blast
  from eigen_slots [of "Matrix_of [[2, 0], [0, 3::real]]" sqrt True 1000] eigen_diag_run
  have b: "length [2, 3::real] \<le> length [[1, 0], [0, 1::real]]"
    by simp
  show ?thesis using n a b eigen_diag_run by simp
qed

section \<open>The rank of a matrix and of its transpose\<close>















end
